theory Spec2Isabelle
  imports Complex_Main
begin

section \<open>png2gif: the frame pipeline of \<^verbatim>\<open>main.go\<close>\<close>

text \<open>
  The pipeline is \<^verbatim>\<open>BuildGif\<close>: \<^verbatim>\<open>readImages\<close> (decode and merge equal neighbours),
  \<^verbatim>\<open>encodeImgPaletted\<close> (one goroutine per run, GIF encode and decode to get a paletted
  image) and \<^verbatim>\<open>writeGif\<close> (delays and the output file). Everything the program imports
  (the operating system's files, \<^verbatim>\<open>image.Decode\<close>, the \<^verbatim>\<open>images4\<close> metrics, the
  \<^verbatim>\<open>image/gif\<close> codec) is a field of the record \<open>env\<close>; the functions of
  \<^verbatim>\<open>main.go\<close> are defined over it.
\<close>

subsection \<open>Go's \<^verbatim>\<open>int\<close> and \<^verbatim>\<open>float64\<close>\<close>

text \<open>
  \<^verbatim>\<open>int\<close> is 64 bits wide on the platforms the tool is released for. Values are
  integers, and \<open>int64\<close> is the wrap-around of an arithmetic result.
\<close>

definition int64 :: "int \<Rightarrow> int" where
  "int64 x = (x + 2 ^ 63) mod 2 ^ 64 - 2 ^ 63"

text \<open>Go's \<^verbatim>\<open>/\<close> on integers truncates towards zero. It is only called with a
  divisor that is not zero (see \<open>BuildGif\<close>).\<close>

definition quo :: "int \<Rightarrow> int \<Rightarrow> int" where
  "quo a b = sgn a * sgn b * (\<bar>a\<bar> div \<bar>b\<bar>)"

text \<open>
  A \<^verbatim>\<open>float64\<close> is a finite value (read as the real number it denotes), an infinity
  or NaN. \<open>fgt\<close> is Go's \<^verbatim>\<open>>\<close> on it: every comparison with NaN is false.
\<close>

datatype float64 = Finite real | PosInf | NegInf | NaN

fun fgt :: "float64 \<Rightarrow> float64 \<Rightarrow> bool" where
  "fgt NaN _ = False"
| "fgt _ NaN = False"
| "fgt (Finite x) (Finite y) = (y < x)"
| "fgt (Finite x) PosInf = False"
| "fgt (Finite x) NegInf = True"
| "fgt PosInf PosInf = False"
| "fgt PosInf _ = True"
| "fgt NegInf _ = False"

subsection \<open>Data\<close>

text \<open>An \<^verbatim>\<open>image.Image\<close> is an interface value: \<open>None\<close> is \<^verbatim>\<open>nil\<close>.\<close>

record 'img imgWithDelay =
  img :: "'img option"
  delay :: int

text \<open>The delay field of \<^verbatim>\<open>palettedWithDelay\<close> is \<open>pdelay\<close> here (a record field is
  a constant, and \<open>delay\<close> is taken).\<close>

record 'pal palettedWithDelay =
  paletted :: 'pal
  pdelay :: int

text \<open>\<^verbatim>\<open>gif.GIF\<close>, the two fields the program fills.\<close>

record 'pal GIF =
  GIF_Image :: "'pal list"
  GIF_Delay :: "int list"

text \<open>What \<^verbatim>\<open>gif.Decode\<close> returns is an \<^verbatim>\<open>image.Image\<close>; the program asks whether it
  is an \<^verbatim>\<open>*image.Paletted\<close>.\<close>

datatype 'pal decoded = Paletted 'pal | NotPaletted

text \<open>Errors: the two that \<^verbatim>\<open>readImages\<close> builds with \<^verbatim>\<open>fmt.Errorf\<close> (path and wrapped
  cause), and the ones of the libraries, passed on as they are.\<close>

datatype error =
    Failed_to_open string string
  | Failed_to_decode string string
  | Lib_error string

fun error_path :: "error \<Rightarrow> string option" where
  "error_path (Failed_to_open s c) = Some s"
| "error_path (Failed_to_decode s c) = Some s"
| "error_path (Lib_error c) = None"

text \<open>A call returns a value, returns an error, or panics (a nil dereference ends the
  process).\<close>

datatype 'a outcome = Ok 'a | Err error | Panic

text \<open>What the program does to the file system, in order.\<close>

datatype 'pal event =
    Open string
  | Decode string
  | Close string
  | Create string
  | EncodeAll string "'pal GIF"

type_synonym bytes = "nat list"

record ('img, 'icon, 'pal) env =
  os_Open :: "string \<Rightarrow> string option"
  image_Decode :: "string \<Rightarrow> string + 'img"
  Icon :: "'img \<Rightarrow> 'icon"
  PropMetric :: "'icon \<Rightarrow> 'icon \<Rightarrow> float64"
  EucMetric :: "'icon \<Rightarrow> 'icon \<Rightarrow> float64 \<times> float64 \<times> float64"
  gif_Encode :: "'img \<Rightarrow> string + bytes"
  gif_Decode :: "bytes \<Rightarrow> string + 'pal decoded"
  os_Create :: "string \<Rightarrow> string option"
  gif_EncodeAll :: "'pal GIF \<Rightarrow> string option"

subsection \<open>\<^verbatim>\<open>imagesEqual\<close>\<close>

definition thy :: float64 where
  "thy = Finite 100"

definition thCbCr :: float64 where
  "thCbCr = Finite 200"

text \<open>The constant \<^verbatim>\<open>0.001\<close> of the comparison, converted to \<^verbatim>\<open>float64\<close>: the nearest
  double.\<close>

definition propTol :: float64 where
  "propTol = Finite (1152921504606847 / 1152921504606846976)"

datatype oracle_call = Icon_call | PropMetric_call | EucMetric_call

text \<open>The result and the calls to \<^verbatim>\<open>images4\<close> that were made, in order.\<close>

definition imagesEqual_calls ::
  "('img, 'icon, 'pal) env \<Rightarrow> 'img \<Rightarrow> 'img \<Rightarrow> bool \<times> oracle_call list" where
  "imagesEqual_calls env a b =
     (let iconA = Icon env a; iconB = Icon env b in
      if fgt (PropMetric env iconA iconB) propTol
      then (False, [Icon_call, Icon_call, PropMetric_call])
      else
        (case EucMetric env iconA iconB of (m1, m2, m3) \<Rightarrow>
           if fgt m1 thy
           then (False, [Icon_call, Icon_call, PropMetric_call, EucMetric_call])
           else if fgt m2 thCbCr \<or> fgt m3 thCbCr
           then (False, [Icon_call, Icon_call, PropMetric_call, EucMetric_call])
           else (True, [Icon_call, Icon_call, PropMetric_call, EucMetric_call])))"

definition imagesEqual :: "('img, 'icon, 'pal) env \<Rightarrow> 'img \<Rightarrow> 'img \<Rightarrow> bool" where
  "imagesEqual env a b = fst (imagesEqual_calls env a b)"

subsection \<open>\<^verbatim>\<open>readImages\<close>\<close>

text \<open>The variables of the loop, the deferred \<^verbatim>\<open>f.Close()\<close> calls (latest first) and
  the events so far.\<close>

record ('img, 'pal) rd_state =
  images :: "'img imgWithDelay list"
  prevImg :: "'img option"
  rdelay :: int
  deferred :: "string list"
  rlog :: "'pal event list"

text \<open>The \<^verbatim>\<open>for _, s := range *files\<close> loop. An error leaves the loop with the state
  at that point.\<close>

fun readImages_loop ::
  "('img, 'icon, 'pal) env \<Rightarrow> string list \<Rightarrow> ('img, 'pal) rd_state
     \<Rightarrow> error option \<times> ('img, 'pal) rd_state" where
  "readImages_loop env [] st = (None, st)"
| "readImages_loop env (s # files) st =
     (case os_Open env s of
        Some cause \<Rightarrow> (Some (Failed_to_open s cause), st\<lparr>rlog := rlog st @ [Open s]\<rparr>)
      | None \<Rightarrow>
          (case image_Decode env s of
             Inl cause \<Rightarrow>
               (Some (Failed_to_decode s cause),
                st\<lparr>deferred := s # deferred st, rlog := rlog st @ [Open s, Decode s]\<rparr>)
           | Inr im \<Rightarrow>
               (let st1 = st\<lparr>deferred := s # deferred st, rlog := rlog st @ [Open s, Decode s]\<rparr> in
                case prevImg st1 of
                  Some prev \<Rightarrow>
                    if \<not> imagesEqual env prev im
                    then readImages_loop env files
                           (st1\<lparr>images := images st1 @ [\<lparr>img = Some prev, delay = rdelay st1\<rparr>],
                                rdelay := 1, prevImg := Some im\<rparr>)
                    else readImages_loop env files (st1\<lparr>rdelay := int64 (rdelay st1 + 1)\<rparr>)
                | None \<Rightarrow> readImages_loop env files (st1\<lparr>prevImg := Some im\<rparr>))))"

definition readImages ::
  "('img, 'icon, 'pal) env \<Rightarrow> string list
     \<Rightarrow> 'img imgWithDelay list outcome \<times> 'pal event list" where
  "readImages env files =
     (case readImages_loop env files
             \<lparr>images = [], prevImg = None, rdelay = 1, deferred = [], rlog = []\<rparr> of
        (Some e, st) \<Rightarrow> (Err e, rlog st @ map Close (deferred st))
      | (None, st) \<Rightarrow>
          (Ok (images st @ [\<lparr>img = prevImg st, delay = rdelay st\<rparr>]),
           rlog st @ map Close (deferred st)))"

subsection \<open>\<^verbatim>\<open>encodeImgPaletted\<close>\<close>

text \<open>
  The body of one goroutine, for the run \<open>im\<close>. \<open>Ok (Some p)\<close>: the cast succeeded,
  \<open>p\<close> is stored in the slot of the run and \<^verbatim>\<open>nil\<close> is returned. \<open>Ok None\<close>: the cast
  failed, nothing is stored and \<^verbatim>\<open>nil\<close> is returned. \<^verbatim>\<open>gif.Encode\<close> reads the bounds
  of its image first, so a \<^verbatim>\<open>nil\<close> image is a nil dereference.
\<close>

definition encode_task ::
  "('img, 'icon, 'pal) env \<Rightarrow> 'img imgWithDelay \<Rightarrow> 'pal palettedWithDelay option outcome" where
  "encode_task env im =
     (case img im of
        None \<Rightarrow> Panic
      | Some m \<Rightarrow>
          (case gif_Encode env m of
             Inl cause \<Rightarrow> Err (Lib_error cause)
           | Inr b \<Rightarrow>
               (case gif_Decode env b of
                  Inl cause \<Rightarrow> Err (Lib_error cause)
                | Inr d \<Rightarrow>
                    (case d of
                       Paletted i \<Rightarrow> Ok (Some \<lparr>paletted = i, pdelay = delay im\<rparr>)
                     | NotPaletted \<Rightarrow> Ok None))))"

text \<open>What the goroutines share: the slice \<^verbatim>\<open>imgp\<close> (written under the mutex) and the
  first error the \<^verbatim>\<open>errgroup\<close> keeps.\<close>

record 'pal enc_state =
  imgp :: "'pal palettedWithDelay option list"
  first_err :: "error option"

text \<open>
  The goroutines share nothing but the above, so a run of the group is the order in which
  they finish: \<open>order\<close>, a list of the indices \<^verbatim>\<open>ctr\<close>. The context of the group is
  dropped, so an error stops no other goroutine. A panic in a goroutine ends the process
  (\<open>None\<close>).
\<close>

fun run_tasks ::
  "('img, 'icon, 'pal) env \<Rightarrow> 'img imgWithDelay list \<Rightarrow> nat list \<Rightarrow> 'pal enc_state
     \<Rightarrow> 'pal enc_state option" where
  "run_tasks env ims [] st = Some st"
| "run_tasks env ims (ctr # order) st =
     (case encode_task env (ims ! ctr) of
        Panic \<Rightarrow> None
      | Err e \<Rightarrow>
          run_tasks env ims order
            (st\<lparr>first_err := (case first_err st of None \<Rightarrow> Some e | Some e0 \<Rightarrow> Some e0)\<rparr>)
      | Ok None \<Rightarrow> run_tasks env ims order st
      | Ok (Some p) \<Rightarrow> run_tasks env ims order (st\<lparr>imgp := (imgp st)[ctr := Some p]\<rparr>))"

text \<open>A completion order of the goroutines of \<open>n\<close> runs: every index once.\<close>

definition schedule :: "nat \<Rightarrow> nat list \<Rightarrow> bool" where
  "schedule n order \<longleftrightarrow> distinct order \<and> set order = {..<n}"

definition encodeImgPaletted ::
  "('img, 'icon, 'pal) env \<Rightarrow> 'img imgWithDelay list \<Rightarrow> nat list
     \<Rightarrow> 'pal palettedWithDelay option list outcome" where
  "encodeImgPaletted env ims order =
     (case run_tasks env ims order
             \<lparr>imgp = replicate (length ims) None, first_err = None\<rparr> of
        None \<Rightarrow> Panic
      | Some st \<Rightarrow> (case first_err st of Some e \<Rightarrow> Err e | None \<Rightarrow> Ok (imgp st)))"

subsection \<open>\<^verbatim>\<open>writeGif\<close> and \<^verbatim>\<open>BuildGif\<close>\<close>

text \<open>The \<^verbatim>\<open>range *im\<close> loop: \<^verbatim>\<open>i.paletted\<close> on a \<^verbatim>\<open>nil\<close> entry is a nil dereference
  (\<open>None\<close>).\<close>

fun writeGif_loop ::
  "'pal palettedWithDelay option list \<Rightarrow> int \<Rightarrow> 'pal GIF \<Rightarrow> 'pal GIF option" where
  "writeGif_loop [] d g = Some g"
| "writeGif_loop (None # im) d g = None"
| "writeGif_loop (Some i # im) d g =
     writeGif_loop im d
       (g\<lparr>GIF_Image := GIF_Image g @ [paletted i],
          GIF_Delay := GIF_Delay g @ [int64 (d * pdelay i)]\<rparr>)"

definition writeGif ::
  "('img, 'icon, 'pal) env \<Rightarrow> 'pal palettedWithDelay option list \<Rightarrow> int \<Rightarrow> string
     \<Rightarrow> unit outcome \<times> 'pal event list" where
  "writeGif env im d path =
     (case writeGif_loop im d \<lparr>GIF_Image = [], GIF_Delay = []\<rparr> of
        None \<Rightarrow> (Panic, [])
      | Some g \<Rightarrow>
          (case os_Create env path of
             Some cause \<Rightarrow> (Err (Lib_error cause), [Create path])
           | None \<Rightarrow>
               ((case gif_EncodeAll env g of
                   Some cause \<Rightarrow> Err (Lib_error cause)
                 | None \<Rightarrow> Ok ()),
                [Create path, EncodeAll path g, Close path])))"

text \<open>\<open>order\<close> is the completion order of the goroutines of \<open>encodeImgPaletted\<close>.\<close>

definition BuildGif ::
  "('img, 'icon, 'pal) env \<Rightarrow> string list \<Rightarrow> string \<Rightarrow> int \<Rightarrow> nat list
     \<Rightarrow> unit outcome \<times> 'pal event list" where
  "BuildGif env files out fps order =
     (let fps1 = (if fps = 0 then 30 else fps) in
      case readImages env files of
        (Err e, evs) \<Rightarrow> (Err e, evs)
      | (Panic, evs) \<Rightarrow> (Panic, evs)
      | (Ok im, evs) \<Rightarrow>
          (case encodeImgPaletted env im order of
             Err e \<Rightarrow> (Err e, evs)
           | Panic \<Rightarrow> (Panic, evs)
           | Ok im_p \<Rightarrow>
               (case writeGif env im_p (quo 100 fps1) out of
                  (r, evs2) \<Rightarrow> (r, evs @ evs2))))"

subsection \<open>A small world to run the program in\<close>

text \<open>
  Images, icons and paletted images are numbers. \<^verbatim>\<open>a1.png\<close> and \<^verbatim>\<open>a2.png\<close> hold the
  same picture 1, \<^verbatim>\<open>b.png\<close> holds picture 2, \<^verbatim>\<open>c.png\<close> holds picture 3, whose GIF
  decodes to something that is not paletted, \<^verbatim>\<open>d.png\<close> holds picture 4, the only one
  of another shape; \<^verbatim>\<open>gone.png\<close> cannot be opened and any other file cannot be
  decoded. Two pictures are at luma distance 0 when they are the same and 150 otherwise.
\<close>

definition demo :: "(nat, nat, nat) env" where
  "demo =
     \<lparr>os_Open = (\<lambda>s. if s = ''gone.png'' then Some ''no such file'' else None),
      image_Decode =
        (\<lambda>s. if s = ''a1.png'' \<or> s = ''a2.png'' then Inr 1
              else if s = ''b.png'' then Inr 2
              else if s = ''c.png'' then Inr 3
              else if s = ''d.png'' then Inr 4
              else Inl ''unknown format''),
      Icon = (\<lambda>m. m),
      PropMetric = (\<lambda>a b. if (a = 4) = (b = 4) then Finite 0 else Finite (1 / 2)),
      EucMetric = (\<lambda>a b. (if a = b then Finite 0 else Finite 150, Finite 0, Finite 0)),
      gif_Encode = (\<lambda>m. Inr [m]),
      gif_Decode = (\<lambda>b. if b = [3] then Inr NotPaletted else Inr (Paletted (hd b))),
      os_Create = (\<lambda>s. None),
      gif_EncodeAll = (\<lambda>g. None)\<rparr>"

text \<open>The same world with a \<^verbatim>\<open>gif.Decode\<close> like Go's: what it decodes is paletted.\<close>

definition demo_gif :: "(nat, nat, nat) env" where
  "demo_gif = demo\<lparr>gif_Decode := (\<lambda>b. Inr (Paletted (hd b)))\<rparr>"

section \<open>Properties\<close>

subsection \<open>Arithmetic\<close>

lemma int64_id: "- (2 ^ 63) \<le> x \<Longrightarrow> x < 2 ^ 63 \<Longrightarrow> int64 x = x"
  by (simp add: int64_def)

lemma int64_0: "int64 0 = 0"
  by (simp add: int64_def)

lemma quo_pos: "0 < f \<Longrightarrow> quo 100 f = 100 div f"
  by (simp add: quo_def)

lemma quo_gt_100: "100 < f \<Longrightarrow> quo 100 f = 0"
  by (simp add: quo_def)

text \<open>The tolerance of \<^verbatim>\<open>imagesEqual\<close> is the real number 0.001 up to the rounding of the
  constant.\<close>

lemma propTol_near:
  "(fgt (Finite x) propTol \<longrightarrow> 1 / 1000 < x)
   \<and> (1 / 1000 + 1 / 10 ^ 19 < x \<longrightarrow> fgt (Finite x) propTol)"
  by (simp add: propTol_def)

subsection \<open>The loop of \<^verbatim>\<open>readImages\<close>\<close>

text \<open>Once a first frame is there: the counts of the runs, with the one in progress, grow by
  one for each frame read, and none is below 1. The counter does not wrap as long as the
  number of files fits an \<^verbatim>\<open>int\<close>.\<close>

lemma readImages_loop_counts:
  assumes "readImages_loop env files st = (None, st')"
    and "prevImg st = Some p"
    and "1 \<le> rdelay st"
    and "rdelay st + int (length files) < 2 ^ 63"
  shows "sum_list (map delay (images st')) + rdelay st' =
           sum_list (map delay (images st)) + rdelay st + int (length files)
         \<and> 1 \<le> rdelay st' \<and> prevImg st' \<noteq> None
         \<and> ((\<forall>r \<in> set (images st). 1 \<le> delay r) \<longrightarrow> (\<forall>r \<in> set (images st'). 1 \<le> delay r))"
  using assms
proof (induction files arbitrary: st p)
  case Nil
  then show ?case by simp
next
  case (Cons s files)
  from Cons.prems(1) obtain im where op: "os_Open env s = None" and dec: "image_Decode env s = Inr im"
    by (auto split: option.splits sum.splits)
  let ?st1 = "st\<lparr>deferred := s # deferred st, rlog := rlog st @ [Open s, Decode s]\<rparr>"
  show ?case
  proof (cases "imagesEqual env p im")
    case True
    let ?st2 = "?st1\<lparr>rdelay := int64 (rdelay st + 1)\<rparr>"
    have w: "int64 (rdelay st + 1) = rdelay st + 1"
      using Cons.prems(3,4) by (intro int64_id) auto
    have run: "readImages_loop env files ?st2 = (None, st')"
      using Cons.prems(1,2) op dec True by simp
    have "sum_list (map delay (images st')) + rdelay st' =
           sum_list (map delay (images ?st2)) + rdelay ?st2 + int (length files)
         \<and> 1 \<le> rdelay st' \<and> prevImg st' \<noteq> None
         \<and> ((\<forall>r \<in> set (images ?st2). 1 \<le> delay r) \<longrightarrow> (\<forall>r \<in> set (images st'). 1 \<le> delay r))"
      using Cons.prems(2,3,4) w by (intro Cons.IH [OF run, of p]) auto
    then show ?thesis using w by simp
  next
    case False
    let ?st2 = "?st1\<lparr>images := images st @ [\<lparr>img = Some p, delay = rdelay st\<rparr>],
                      rdelay := 1, prevImg := Some im\<rparr>"
    have run: "readImages_loop env files ?st2 = (None, st')"
      using Cons.prems(1,2) op dec False by simp
    have "sum_list (map delay (images st')) + rdelay st' =
           sum_list (map delay (images ?st2)) + rdelay ?st2 + int (length files)
         \<and> 1 \<le> rdelay st' \<and> prevImg st' \<noteq> None
         \<and> ((\<forall>r \<in> set (images ?st2). 1 \<le> delay r) \<longrightarrow> (\<forall>r \<in> set (images st'). 1 \<le> delay r))"
      using Cons.prems(3,4) by (intro Cons.IH [OF run, of im]) auto
    then show ?thesis using Cons.prems(3) by auto
  qed
qed

lemma readImages_loop_first:
  assumes "os_Open env s = None" and "image_Decode env s = Inr im"
  shows "readImages_loop env (s # files)
           \<lparr>images = [], prevImg = None, rdelay = 1, deferred = [], rlog = []\<rparr> =
         readImages_loop env files
           \<lparr>images = [], prevImg = Some im, rdelay = 1, deferred = [s],
            rlog = [Open s, Decode s]\<rparr>"
  using assms by simp

lemma readImages_Ok_loop:
  assumes "fst (readImages env files) = Ok runs"
  obtains st where
    "readImages_loop env files
       \<lparr>images = [], prevImg = None, rdelay = 1, deferred = [], rlog = []\<rparr> = (None, st)"
    and "runs = images st @ [\<lparr>img = prevImg st, delay = rdelay st\<rparr>]"
  using assms unfolding readImages_def
  by (auto split: prod.splits option.splits)

lemma readImages_nonempty_counts:
  fixes env :: "('img, 'icon, 'pal) env"
  assumes ok: "fst (readImages env files) = Ok runs"
    and ne: "files \<noteq> []"
    and len: "int (length files) < 2 ^ 63"
  shows "sum_list (map delay runs) = int (length files) \<and> (\<forall>r \<in> set runs. 1 \<le> delay r)"
proof -
  from ne obtain s rest where files: "files = s # rest" by (cases files) auto
  from ok obtain st where
    loop: "readImages_loop env files
       \<lparr>images = [], prevImg = None, rdelay = 1, deferred = [], rlog = []\<rparr> = (None, st)"
    and runs: "runs = images st @ [\<lparr>img = prevImg st, delay = rdelay st\<rparr>]"
    by (rule readImages_Ok_loop)
  from loop files obtain im where op: "os_Open env s = None" and dec: "image_Decode env s = Inr im"
    by (auto split: option.splits sum.splits)
  let ?st0 = "\<lparr>images = [], prevImg = Some im, rdelay = 1, deferred = [s],
               rlog = [Open s, Decode s]\<rparr> :: ('img, 'pal) rd_state"
  have "readImages_loop env rest ?st0 = (None, st)"
    using loop files readImages_loop_first [OF op dec, of rest] by simp
  from readImages_loop_counts [OF this, of im] len files
  have "sum_list (map delay (images st)) + rdelay st = 1 + int (length rest)"
    and "1 \<le> rdelay st" and "\<forall>r \<in> set (images st). 1 \<le> delay r"
    by auto
  then show ?thesis using runs files by auto
qed

lemma readImages_loop_all_equal:
  assumes "prevImg st = Some a"
    and "\<forall>s \<in> set files. os_Open env s = None \<and>
           (\<exists>im. image_Decode env s = Inr im \<and> imagesEqual env a im)"
    and "1 \<le> rdelay st"
    and "rdelay st + int (length files) < 2 ^ 63"
  shows "\<exists>st'. readImages_loop env files st = (None, st') \<and> images st' = images st
           \<and> prevImg st' = Some a \<and> rdelay st' = rdelay st + int (length files)"
  using assms
proof (induction files arbitrary: st)
  case Nil
  then show ?case by simp
next
  case (Cons s files)
  from Cons.prems(2) obtain im where op: "os_Open env s = None"
    and dec: "image_Decode env s = Inr im" and eq: "imagesEqual env a im"
    by auto
  let ?st2 = "st\<lparr>deferred := s # deferred st, rlog := rlog st @ [Open s, Decode s],
                 rdelay := int64 (rdelay st + 1)\<rparr>"
  have w: "int64 (rdelay st + 1) = rdelay st + 1"
    using Cons.prems(3,4) by (intro int64_id) auto
  have step: "readImages_loop env (s # files) st = readImages_loop env files ?st2"
    using Cons.prems(1) op dec eq by simp
  have "\<exists>st'. readImages_loop env files ?st2 = (None, st') \<and> images st' = images ?st2
           \<and> prevImg st' = Some a \<and> rdelay st' = rdelay ?st2 + int (length files)"
    using Cons.prems w by (intro Cons.IH) auto
  then show ?case using step w by auto
qed

lemma readImages_loop_events:
  assumes "readImages_loop env files st = (r, st')"
  shows "set (rlog st') \<subseteq> set (rlog st) \<union> range Open \<union> range Decode"
  using assms
proof (induction files arbitrary: st)
  case Nil
  then show ?case by auto
next
  case (Cons s files)
  show ?case
  proof (cases "os_Open env s")
    case (Some c)
    with Cons.prems show ?thesis by auto
  next
    case None
    show ?thesis
    proof (cases "image_Decode env s")
      case (Inl c)
      with None Cons.prems show ?thesis by auto
    next
      case (Inr im)
      let ?st1 = "st\<lparr>deferred := s # deferred st, rlog := rlog st @ [Open s, Decode s]\<rparr>"
      from Cons.prems None Inr obtain st2 where
        run: "readImages_loop env files st2 = (r, st')" and lg: "rlog st2 = rlog ?st1"
        by (auto simp: Let_def split: option.splits if_splits)
      from Cons.IH [OF run] lg show ?thesis by auto
    qed
  qed
qed

lemma readImages_events:
  fixes env :: "('img, 'icon, 'pal) env"
  shows "set (snd (readImages env files)) \<subseteq> range Open \<union> range Decode \<union> range Close"
proof -
  let ?st0 = "\<lparr>images = [], prevImg = None, rdelay = 1, deferred = [], rlog = []\<rparr> :: ('img, 'pal) rd_state"
  obtain r st where run: "readImages_loop env files ?st0 = (r, st)" by (cases "readImages_loop env files ?st0")
  from readImages_loop_events [OF run] have "set (rlog st) \<subseteq> range Open \<union> range Decode" by simp
  then show ?thesis using run by (cases r) (auto simp: readImages_def)
qed

lemma readImages_loop_good_prefix:
  assumes "\<forall>s \<in> set pre. os_Open env s = None \<and> (\<exists>im. image_Decode env s = Inr im)"
  shows "\<exists>st1. readImages_loop env (pre @ rest) st = readImages_loop env rest st1
           \<and> rlog st1 = rlog st @ concat (map (\<lambda>s. [Open s, Decode s]) pre)
           \<and> deferred st1 = rev pre @ deferred st"
  using assms
proof (induction pre arbitrary: st)
  case Nil
  show ?case by (rule exI [of _ st]) simp
next
  case (Cons s pre)
  from Cons.prems obtain im where op: "os_Open env s = None" and dec: "image_Decode env s = Inr im"
    by auto
  let ?st1 = "st\<lparr>deferred := s # deferred st, rlog := rlog st @ [Open s, Decode s]\<rparr>"
  obtain st2 where step: "readImages_loop env ((s # pre) @ rest) st = readImages_loop env (pre @ rest) st2"
    and lg: "rlog st2 = rlog st @ [Open s, Decode s]" and df: "deferred st2 = s # deferred st"
  proof (cases "prevImg st")
    case None
    with op dec that [of "?st1\<lparr>prevImg := Some im\<rparr>"] show ?thesis by simp
  next
    case (Some prev)
    show ?thesis
    proof (cases "imagesEqual env prev im")
      case True
      with Some op dec that [of "?st1\<lparr>rdelay := int64 (rdelay ?st1 + 1)\<rparr>"] show ?thesis by simp
    next
      case False
      with Some op dec
        that [of "?st1\<lparr>images := images ?st1 @ [\<lparr>img = Some prev, delay = rdelay ?st1\<rparr>],
                         rdelay := 1, prevImg := Some im\<rparr>"]
      show ?thesis by simp
    qed
  qed
  from Cons.IH [of st2] Cons.prems obtain st3 where
    "readImages_loop env (pre @ rest) st2 = readImages_loop env rest st3"
    "rlog st3 = rlog st2 @ concat (map (\<lambda>s. [Open s, Decode s]) pre)"
    "deferred st3 = rev pre @ deferred st2"
    by auto
  with step lg df show ?case by auto
qed

lemma readImages_first_failure:
  fixes env :: "('img, 'icon, 'pal) env"
  assumes good: "\<forall>s \<in> set pre. os_Open env s = None \<and> (\<exists>im. image_Decode env s = Inr im)"
    and bad: "os_Open env p \<noteq> None \<or> (\<exists>c. image_Decode env p = Inl c)"
  shows "\<exists>e. readImages env (pre @ p # post) =
           (Err e,
            concat (map (\<lambda>s. [Open s, Decode s]) pre) @
            (if os_Open env p \<noteq> None then [Open p] @ map Close (rev pre)
             else [Open p, Decode p] @ map Close (p # rev pre)))
          \<and> error_path e = Some p"
proof -
  let ?st0 = "\<lparr>images = [], prevImg = None, rdelay = 1, deferred = [], rlog = []\<rparr> :: ('img, 'pal) rd_state"
  from readImages_loop_good_prefix [OF good, of "p # post" ?st0] obtain st1 where
    pre: "readImages_loop env (pre @ p # post) ?st0 = readImages_loop env (p # post) st1"
    and lg: "rlog st1 = concat (map (\<lambda>s. [Open s, Decode s]) pre)"
    and df: "deferred st1 = rev pre"
    by auto
  show ?thesis
  proof (cases "os_Open env p")
    case (Some c)
    with pre lg df show ?thesis by (simp add: readImages_def)
  next
    case None
    with bad obtain c where "image_Decode env p = Inl c" by auto
    with None pre lg df show ?thesis by (simp add: readImages_def)
  qed
qed

subsection \<open>The goroutines of \<^verbatim>\<open>encodeImgPaletted\<close>\<close>

lemma encode_task_Ok_Some:
  assumes "encode_task env im = Ok (Some p)"
  shows "pdelay p = delay im
       \<and> (\<exists>m b. img im = Some m \<and> gif_Encode env m = Inr b
                \<and> gif_Decode env b = Inr (Paletted (paletted p)))"
  using assms
  by (auto simp: encode_task_def split: option.splits sum.splits decoded.splits)

lemma encode_task_Ok_None:
  assumes "encode_task env im = Ok None"
  shows "\<exists>m b. img im = Some m \<and> gif_Encode env m = Inr b \<and> gif_Decode env b = Inr NotPaletted"
  using assms
  by (auto simp: encode_task_def split: option.splits sum.splits decoded.splits)

lemma encode_task_NotPaletted:
  assumes "img im = Some m" and "gif_Encode env m = Inr b" and "gif_Decode env b = Inr NotPaletted"
  shows "encode_task env im = Ok None"
  using assms by (simp add: encode_task_def)

lemma run_tasks_slots:
  assumes "run_tasks env ims order st = Some st'"
    and "set order \<subseteq> {..<length (imgp st)}"
  shows "length (imgp st') = length (imgp st)
       \<and> (\<forall>k < length (imgp st). \<forall>p. k \<in> set order \<longrightarrow>
            encode_task env (ims ! k) = Ok (Some p) \<longrightarrow> imgp st' ! k = Some p)
       \<and> (\<forall>k < length (imgp st).
            k \<notin> set order \<or> (\<forall>p. encode_task env (ims ! k) \<noteq> Ok (Some p)) \<longrightarrow>
            imgp st' ! k = imgp st ! k)
       \<and> (first_err st' = None \<longleftrightarrow>
            first_err st = None \<and> (\<forall>k \<in> set order. \<exists>s. encode_task env (ims ! k) = Ok s))"
  using assms
proof (induction order arbitrary: st)
  case Nil
  then show ?case by simp
next
  case (Cons ctr order)
  show ?case
  proof (cases "encode_task env (ims ! ctr)")
    case Panic
    with Cons.prems show ?thesis by simp
  next
    case (Err e)
    let ?st1 = "st\<lparr>first_err := (case first_err st of None \<Rightarrow> Some e | Some e0 \<Rightarrow> Some e0)\<rparr>"
    have "run_tasks env ims order ?st1 = Some st'" using Cons.prems(1) Err by simp
    from Cons.IH [OF this] Cons.prems(2) Err show ?thesis
      by (auto split: outcome.splits option.splits)
  next
    case (Ok s)
    show ?thesis
    proof (cases s)
      case None
      have "run_tasks env ims order st = Some st'" using Cons.prems(1) Ok None by simp
      from Cons.IH [OF this] Cons.prems(2) Ok None show ?thesis by auto
    next
      case (Some p)
      let ?st1 = "st\<lparr>imgp := (imgp st)[ctr := Some p]\<rparr>"
      have "run_tasks env ims order ?st1 = Some st'" using Cons.prems(1) Ok Some by simp
      from Cons.IH [OF this] Cons.prems(2) Ok Some show ?thesis
        by (auto simp: nth_list_update split: outcome.splits option.splits)
    qed
  qed
qed

lemma run_tasks_no_panic:
  assumes "\<forall>k \<in> set order. encode_task env (ims ! k) \<noteq> Panic"
  shows "\<exists>st'. run_tasks env ims order st = Some st'"
  using assms
  by (induction order arbitrary: st) (auto split: outcome.splits option.splits)

text \<open>The group returns \<^verbatim>\<open>nil\<close> exactly when every goroutine does, and then each slot
  holds what its goroutine stored. The order plays no part.\<close>

lemma encodeImgPaletted_Ok_iff:
  fixes env :: "('img, 'icon, 'pal) env"
  assumes "schedule (length ims) order"
  shows "encodeImgPaletted env ims order = Ok im_p \<longleftrightarrow>
           length im_p = length ims \<and> (\<forall>k < length ims. encode_task env (ims ! k) = Ok (im_p ! k))"
proof
  assume ok: "encodeImgPaletted env ims order = Ok im_p"
  let ?st0 = "\<lparr>imgp = replicate (length ims) None, first_err = None\<rparr> :: 'pal enc_state"
  from ok obtain st' where run: "run_tasks env ims order ?st0 = Some st'"
    and fe: "first_err st' = None" and im: "imgp st' = im_p"
    by (auto simp: encodeImgPaletted_def split: option.splits)
  have sub: "set order \<subseteq> {..<length (imgp ?st0)}" using assms by (simp add: schedule_def)
  from run_tasks_slots [OF run sub] fe
  have len: "length (imgp st') = length ims"
    and stored: "\<And>k p. k < length ims \<Longrightarrow> k \<in> set order \<Longrightarrow>
                   encode_task env (ims ! k) = Ok (Some p) \<Longrightarrow> imgp st' ! k = Some p"
    and kept: "\<And>k. k < length ims \<Longrightarrow> \<forall>p. encode_task env (ims ! k) \<noteq> Ok (Some p) \<Longrightarrow>
                   imgp st' ! k = None"
    and noerr: "\<forall>k \<in> set order. \<exists>s. encode_task env (ims ! k) = Ok s"
    by simp_all
  have "encode_task env (ims ! k) = Ok (im_p ! k)" if k: "k < length ims" for k
  proof -
    from k assms have mem: "k \<in> set order" by (simp add: schedule_def)
    with noerr obtain s where s: "encode_task env (ims ! k) = Ok s" by blast
    from stored [OF k mem] kept [OF k] s have "imgp st' ! k = s" by (cases s) simp_all
    with s im show ?thesis by simp
  qed
  with len im
  show "length im_p = length ims \<and> (\<forall>k < length ims. encode_task env (ims ! k) = Ok (im_p ! k))"
    by simp
next
  assume r: "length im_p = length ims \<and> (\<forall>k < length ims. encode_task env (ims ! k) = Ok (im_p ! k))"
  let ?st0 = "\<lparr>imgp = replicate (length ims) None, first_err = None\<rparr> :: 'pal enc_state"
  have "\<forall>k \<in> set order. encode_task env (ims ! k) \<noteq> Panic"
    using r assms by (auto simp: schedule_def)
  from run_tasks_no_panic [OF this] obtain st' where run: "run_tasks env ims order ?st0 = Some st'"
    by blast
  have sub: "set order \<subseteq> {..<length (imgp ?st0)}" using assms by (simp add: schedule_def)
  from run_tasks_slots [OF run sub]
  have len: "length (imgp st') = length ims"
    and stored: "\<And>k p. k < length ims \<Longrightarrow> k \<in> set order \<Longrightarrow>
                   encode_task env (ims ! k) = Ok (Some p) \<Longrightarrow> imgp st' ! k = Some p"
    and kept: "\<And>k. k < length ims \<Longrightarrow> \<forall>p. encode_task env (ims ! k) \<noteq> Ok (Some p) \<Longrightarrow>
                   imgp st' ! k = None"
    and fe_iff: "first_err st' = None \<longleftrightarrow>
                   (\<forall>k \<in> set order. \<exists>s. encode_task env (ims ! k) = Ok s)"
    by simp_all
  have fe: "first_err st' = None" using fe_iff r assms by (auto simp: schedule_def)
  have "imgp st' ! k = im_p ! k" if k: "k < length ims" for k
  proof -
    from k assms have mem: "k \<in> set order" by (simp add: schedule_def)
    from r k have s: "encode_task env (ims ! k) = Ok (im_p ! k)" by simp
    from stored [OF k mem] kept [OF k] s show ?thesis by (cases "im_p ! k") simp_all
  qed
  with len r have "imgp st' = im_p" by (simp add: list_eq_iff_nth_eq)
  with run fe show "encodeImgPaletted env ims order = Ok im_p"
    by (simp add: encodeImgPaletted_def)
qed

text \<open>On success each slot holds what the GIF of its run decodes to, if that is paletted,
  with the count of the run, and \<^verbatim>\<open>nil\<close> if it is not.\<close>

lemma encodeImgPaletted_slots:
  fixes env :: "('img, 'icon, 'pal) env"
  assumes "schedule (length ims) order"
    and "encodeImgPaletted env ims order = Ok im_p"
  shows "length im_p = length ims
       \<and> (\<forall>k < length ims. \<exists>m b d.
             img (ims ! k) = Some m \<and> gif_Encode env m = Inr b \<and> gif_Decode env b = Inr d
             \<and> im_p ! k =
                 (case d of
                    Paletted i \<Rightarrow> Some \<lparr>paletted = i, pdelay = delay (ims ! k)\<rparr>
                  | NotPaletted \<Rightarrow> None))
       \<and> (\<forall>order'. schedule (length ims) order' \<longrightarrow> encodeImgPaletted env ims order' = Ok im_p)"
proof -
  from assms have len: "length im_p = length ims"
    and task: "\<forall>k < length ims. encode_task env (ims ! k) = Ok (im_p ! k)"
    by (simp_all add: encodeImgPaletted_Ok_iff)
  have slot: "\<exists>m b d.
             img (ims ! k) = Some m \<and> gif_Encode env m = Inr b \<and> gif_Decode env b = Inr d
             \<and> im_p ! k =
                 (case d of
                    Paletted i \<Rightarrow> Some \<lparr>paletted = i, pdelay = delay (ims ! k)\<rparr>
                  | NotPaletted \<Rightarrow> None)" if k: "k < length ims" for k
  proof (cases "im_p ! k")
    case None
    with task k have "encode_task env (ims ! k) = Ok None" by simp
    from encode_task_Ok_None [OF this] None show ?thesis by auto
  next
    case (Some p)
    with task k have "encode_task env (ims ! k) = Ok (Some p)" by simp
    from encode_task_Ok_Some [OF this] Some show ?thesis by auto
  qed
  have "encodeImgPaletted env ims order' = Ok im_p" if "schedule (length ims) order'" for order'
    using that len task by (simp add: encodeImgPaletted_Ok_iff)
  with len slot show ?thesis by blast
qed

subsection \<open>\<^verbatim>\<open>writeGif\<close> and \<^verbatim>\<open>BuildGif\<close>\<close>

lemma writeGif_loop_frames:
  assumes "writeGif_loop im d g = Some g'"
  shows "None \<notin> set im
       \<and> GIF_Image g' = GIF_Image g @ map (\<lambda>i. paletted (the i)) im
       \<and> GIF_Delay g' = GIF_Delay g @ map (\<lambda>i. int64 (d * pdelay (the i))) im"
  using assms by (induction im d g rule: writeGif_loop.induct) auto

lemma writeGif_loop_nil:
  "None \<in> set im \<Longrightarrow> writeGif_loop im d g = None"
  by (induction im d g rule: writeGif_loop.induct) auto

lemma BuildGif_EncodeAll:
  fixes env :: "('img, 'icon, 'pal) env"
  assumes "EncodeAll out g \<in> set (snd (BuildGif env files out fps order))"
  obtains runs im_p where "fst (readImages env files) = Ok runs"
    and "encodeImgPaletted env runs order = Ok im_p"
    and "writeGif_loop im_p (quo 100 (if fps = 0 then 30 else fps))
           \<lparr>GIF_Image = [], GIF_Delay = []\<rparr> = Some g"
proof -
  have no: "EncodeAll out g \<notin> set (snd (readImages env files))"
    using readImages_events [of env files] by auto
  obtain r evs where rd: "readImages env files = (r, evs)" by (cases "readImages env files")
  from no rd have no': "EncodeAll out g \<notin> set evs" by simp
  from assms rd no' obtain runs where r: "r = Ok runs"
    by (cases r) (auto simp: BuildGif_def)
  from assms rd no' r obtain im_p where enc: "encodeImgPaletted env runs order = Ok im_p"
    by (cases "encodeImgPaletted env runs order") (auto simp: BuildGif_def)
  from assms rd no' r enc
  have "writeGif_loop im_p (quo 100 (if fps = 0 then 30 else fps))
           \<lparr>GIF_Image = [], GIF_Delay = []\<rparr> = Some g"
    by (auto simp: BuildGif_def writeGif_def split: option.splits prod.splits if_splits)
  with r rd enc that show ?thesis by simp
qed

lemma BuildGif_delays:
  fixes env :: "('img, 'icon, 'pal) env"
  assumes "EncodeAll out g \<in> set (snd (BuildGif env files out fps order))"
    and "schedule (length runs) order"
    and "fst (readImages env files) = Ok runs"
  shows "GIF_Delay g = map (\<lambda>r. int64 (quo 100 (if fps = 0 then 30 else fps) * delay r)) runs"
proof -
  from assms(1,3) obtain im_p where enc: "encodeImgPaletted env runs order = Ok im_p"
    and wl: "writeGif_loop im_p (quo 100 (if fps = 0 then 30 else fps))
           \<lparr>GIF_Image = [], GIF_Delay = []\<rparr> = Some g"
    by (auto elim: BuildGif_EncodeAll)
  from enc assms(2) have len: "length im_p = length runs"
    and task: "\<forall>k < length runs. encode_task env (runs ! k) = Ok (im_p ! k)"
    by (simp_all add: encodeImgPaletted_Ok_iff)
  from writeGif_loop_frames [OF wl] have nn: "None \<notin> set im_p"
    and d: "GIF_Delay g = map (\<lambda>i. int64 (quo 100 (if fps = 0 then 30 else fps) * pdelay (the i))) im_p"
    by simp_all
  have "pdelay (the (im_p ! k)) = delay (runs ! k)" if k: "k < length runs" for k
  proof -
    from nn k len obtain p where p: "im_p ! k = Some p"
      by (cases "im_p ! k") (auto simp: in_set_conv_nth)
    with task k have "encode_task env (runs ! k) = Ok (Some p)" by simp
    then have "pdelay p = delay (runs ! k)"
      by (auto simp: encode_task_def split: option.splits sum.splits decoded.splits)
    with p show ?thesis by simp
  qed
  with d len show ?thesis by (simp add: list_eq_iff_nth_eq)
qed

section \<open>The program in the small world\<close>

lemmas demo_simps = demo_def readImages_def imagesEqual_def imagesEqual_calls_def propTol_def
  thy_def thCbCr_def int64_def

lemma demo_readImages:
  "readImages demo [''a1.png'', ''a2.png'', ''b.png''] =
     (Ok [\<lparr>img = Some 1, delay = 2\<rparr>, \<lparr>img = Some 2, delay = 1\<rparr>],
      [Open ''a1.png'', Decode ''a1.png'', Open ''a2.png'', Decode ''a2.png'',
       Open ''b.png'', Decode ''b.png'', Close ''b.png'', Close ''a2.png'', Close ''a1.png''])"
  by (simp add: demo_simps)

lemma demo_BuildGif:
  "BuildGif demo [''a1.png'', ''a2.png'', ''b.png''] ''out.gif'' 25 [1, 0] =
     (Ok (),
      [Open ''a1.png'', Decode ''a1.png'', Open ''a2.png'', Decode ''a2.png'',
       Open ''b.png'', Decode ''b.png'', Close ''b.png'', Close ''a2.png'', Close ''a1.png'',
       Create ''out.gif'',
       EncodeAll ''out.gif'' \<lparr>GIF_Image = [1, 2], GIF_Delay = [8, 4]\<rparr>,
       Close ''out.gif''])"
  by (simp add: BuildGif_def demo_readImages)
    (simp add: encodeImgPaletted_def encode_task_def writeGif_def quo_def int64_def demo_def)

lemma demo_BuildGif_200:
  "BuildGif demo [''a1.png'', ''a2.png'', ''b.png''] ''out.gif'' 200 [0, 1] =
     (Ok (),
      [Open ''a1.png'', Decode ''a1.png'', Open ''a2.png'', Decode ''a2.png'',
       Open ''b.png'', Decode ''b.png'', Close ''b.png'', Close ''a2.png'', Close ''a1.png'',
       Create ''out.gif'',
       EncodeAll ''out.gif'' \<lparr>GIF_Image = [1, 2], GIF_Delay = [0, 0]\<rparr>,
       Close ''out.gif''])"
  by (simp add: BuildGif_def demo_readImages)
    (simp add: encodeImgPaletted_def encode_task_def writeGif_def quo_def int64_def demo_def)

lemma demo_encodeImgPaletted:
  "encodeImgPaletted demo [\<lparr>img = Some 1, delay = 2\<rparr>, \<lparr>img = Some 3, delay = 1\<rparr>] [1, 0] =
     Ok [Some \<lparr>paletted = 1, pdelay = 2\<rparr>, None]"
  by (simp add: encodeImgPaletted_def encode_task_def demo_def)

lemma demo_gif_encodeImgPaletted:
  "encodeImgPaletted demo_gif [\<lparr>img = Some 1, delay = 2\<rparr>, \<lparr>img = Some 3, delay = 1\<rparr>] [1, 0] =
     Ok [Some \<lparr>paletted = 1, pdelay = 2\<rparr>, Some \<lparr>paletted = 3, pdelay = 1\<rparr>]"
  by (simp add: encodeImgPaletted_def encode_task_def demo_gif_def demo_def)

section \<open>The claims\<close>

text \<open>
  C1. \<^verbatim>\<open>BuildGif\<close> with fps 0 is \<^verbatim>\<open>BuildGif\<close> with fps 30. For fps \<open>f > 0\<close>, whenever
  \<^verbatim>\<open>BuildGif\<close> hands a GIF to \<^verbatim>\<open>gif.EncodeAll\<close>, the delay of the frame of run \<open>k\<close> is
  \<open>100 div f\<close> (the floor of 100/f) times the count of the run, in \<^verbatim>\<open>int\<close> arithmetic;
  the product is the plain integer product as long as it is below \<open>2 ^ 63\<close>.
\<close>

theorem BuildGif_frame_delay:
  fixes env :: "('img, 'icon, 'pal) env"
  shows "BuildGif env files out 0 order = BuildGif env files out 30 order
       \<and> (0 < f \<and> EncodeAll out g \<in> set (snd (BuildGif env files out f order))
            \<and> fst (readImages env files) = Ok runs \<and> schedule (length runs) order \<longrightarrow>
          length (GIF_Delay g) = length runs
          \<and> (\<forall>k < length runs.
                GIF_Delay g ! k = int64 (100 div f * delay (runs ! k))
                \<and> (int (length files) < 2 ^ 63 \<and> 100 div f * delay (runs ! k) < 2 ^ 63 \<longrightarrow>
                     GIF_Delay g ! k = 100 div f * delay (runs ! k))))"
proof -
  have zero: "BuildGif env files out 0 order = BuildGif env files out 30 order"
    by (simp add: BuildGif_def)
  have main: "length (GIF_Delay g) = length runs
          \<and> (\<forall>k < length runs.
                GIF_Delay g ! k = int64 (100 div f * delay (runs ! k))
                \<and> (int (length files) < 2 ^ 63 \<and> 100 div f * delay (runs ! k) < 2 ^ 63 \<longrightarrow>
                     GIF_Delay g ! k = 100 div f * delay (runs ! k)))"
    if f: "0 < f" and ev: "EncodeAll out g \<in> set (snd (BuildGif env files out f order))"
      and rd: "fst (readImages env files) = Ok runs" and sch: "schedule (length runs) order"
  proof -
    from f have unit: "quo 100 (if f = 0 then 30 else f) = 100 div f"
      by (simp add: quo_pos)
    from BuildGif_delays [OF ev sch rd] unit
    have d: "GIF_Delay g = map (\<lambda>r. int64 (100 div f * delay r)) runs" by simp
    have "GIF_Delay g ! k = 100 div f * delay (runs ! k)"
      if k: "k < length runs" and len: "int (length files) < 2 ^ 63"
        and small: "100 div f * delay (runs ! k) < 2 ^ 63" for k
    proof -
      have "1 \<le> delay (runs ! k)"
      proof (cases "files = []")
        case True
        with rd k show ?thesis by (auto simp: readImages_def)
      next
        case False
        from readImages_nonempty_counts [OF rd False len] k show ?thesis by simp
      qed
      moreover from f have "0 \<le> 100 div f" by (simp add: pos_imp_zdiv_nonneg_iff)
      ultimately have "0 \<le> 100 div f * delay (runs ! k)" by simp
      then have "int64 (100 div f * delay (runs ! k)) = 100 div f * delay (runs ! k)"
        using small by (intro int64_id) simp_all
      with d k show ?thesis by simp
    qed
    with d show ?thesis by simp
  qed
  from zero main show ?thesis by blast
qed

theorem BuildGif_frame_delay_witness:
  "EncodeAll ''out.gif'' \<lparr>GIF_Image = [1, 2], GIF_Delay = [8, 4]\<rparr>
     \<in> set (snd (BuildGif demo [''a1.png'', ''a2.png'', ''b.png''] ''out.gif'' 25 [1, 0]))
   \<and> fst (readImages demo [''a1.png'', ''a2.png'', ''b.png'']) =
       Ok [\<lparr>img = Some 1, delay = 2\<rparr>, \<lparr>img = Some 2, delay = 1\<rparr>]
   \<and> schedule 2 [1, 0]
   \<and> GIF_Delay \<lparr>GIF_Image = [1 :: nat, 2], GIF_Delay = [8, 4]\<rparr> ! 0 = 100 div 25 * 2
   \<and> GIF_Delay \<lparr>GIF_Image = [1 :: nat, 2], GIF_Delay = [8, 4]\<rparr> ! 1 = 100 div 25 * 1"
proof -
  let ?files = "[''a1.png'', ''a2.png'', ''b.png'']"
  let ?runs = "[\<lparr>img = Some (1 :: nat), delay = 2\<rparr>, \<lparr>img = Some 2, delay = 1\<rparr>]"
  let ?g = "\<lparr>GIF_Image = [1 :: nat, 2], GIF_Delay = [8, 4]\<rparr>"
  have f: "(0 :: int) < 25" by simp
  have ev: "EncodeAll ''out.gif'' ?g \<in> set (snd (BuildGif demo ?files ''out.gif'' 25 [1, 0]))"
    unfolding demo_BuildGif by simp
  have rd: "fst (readImages demo ?files) = Ok ?runs" by (simp add: demo_readImages)
  have sch2: "schedule 2 [1, 0]" by (auto simp: schedule_def)
  then have sch: "schedule (length ?runs) [1, 0]" by (simp add: numeral_2_eq_2)
  have len: "int (length ?files) < 2 ^ 63" by simp
  from BuildGif_frame_delay [of demo ?files "''out.gif''" "[1, 0]" 25 ?g ?runs] f ev rd sch
  have all: "\<forall>k < length ?runs.
                GIF_Delay ?g ! k = int64 (100 div 25 * delay (?runs ! k))
                \<and> (int (length ?files) < 2 ^ 63 \<and> 100 div 25 * delay (?runs ! k) < 2 ^ 63 \<longrightarrow>
                     GIF_Delay ?g ! k = 100 div 25 * delay (?runs ! k))"
    by blast
  from all [rule_format, of 0] all [rule_format, of 1] len
  have "GIF_Delay ?g ! 0 = 100 div 25 * 2" "GIF_Delay ?g ! 1 = 100 div 25 * 1" by simp_all
  with ev rd sch2 show ?thesis by blast
qed

text \<open>
  C2 on the code, at the empty list of paths: the counts of the runs sum to 1, and there
  are 0 frames. (For a non-empty list the sum is the number of frames:
  \<open>readImages_nonempty_counts\<close>.)
\<close>

theorem readImages_empty_count_sum:
  fixes env :: "('img, 'icon, 'pal) env"
  shows "\<exists>runs. fst (readImages env []) = Ok runs \<and> sum_list (map delay runs) = 1
           \<and> int (length ([] :: string list)) = 0"
  by (simp add: readImages_def)

text \<open>
  C3 on the code. For the empty list of paths the loop of \<^verbatim>\<open>readImages\<close> does not run and the
  final \<^verbatim>\<open>append\<close> still adds a run: the result is one run, with a \<^verbatim>\<open>nil\<close> image and
  count 1, and no error. \<^verbatim>\<open>BuildGif\<close> goes on to \<^verbatim>\<open>encodeImgPaletted\<close>, whose only goroutine
  passes the \<^verbatim>\<open>nil\<close> image to \<^verbatim>\<open>gif.Encode\<close>: a panic, neither an error nor a GIF.
\<close>

theorem readImages_empty_one_run:
  fixes env :: "('img, 'icon, 'pal) env"
  shows "readImages env [] = (Ok [\<lparr>img = None, delay = 1\<rparr>], [])
       \<and> BuildGif env [] out fps [0] = (Panic, [])"
  by (simp add: readImages_def BuildGif_def encodeImgPaletted_def encode_task_def)

text \<open>
  C4. \<^verbatim>\<open>imagesEqual\<close> says different when the proportion metric exceeds the tolerance, and
  then \<^verbatim>\<open>EucMetric\<close> is not called; it says different when the luma distance exceeds 100
  or one of the chroma distances exceeds 200; it says equal otherwise. To exceed is Go's
  \<^verbatim>\<open>>\<close> on \<^verbatim>\<open>float64\<close>, and the tolerance is the \<^verbatim>\<open>float64\<close> constant \<^verbatim>\<open>0.001\<close>, which
  lies within \<open>1 / 10 ^ 19\<close> above the real number 0.001.
\<close>

theorem imagesEqual_decision:
  fixes env :: "('img, 'icon, 'pal) env"
  assumes "PropMetric env (Icon env a) (Icon env b) = pm"
    and "EucMetric env (Icon env a) (Icon env b) = (m1, m2, m3)"
  shows "(fgt pm propTol \<longrightarrow>
            \<not> imagesEqual env a b \<and> EucMetric_call \<notin> set (snd (imagesEqual_calls env a b)))
       \<and> (fgt m1 thy \<or> fgt m2 thCbCr \<or> fgt m3 thCbCr \<longrightarrow> \<not> imagesEqual env a b)
       \<and> (\<not> fgt pm propTol \<and> \<not> fgt m1 thy \<and> \<not> fgt m2 thCbCr \<and> \<not> fgt m3 thCbCr \<longrightarrow>
            imagesEqual env a b)
       \<and> thy = Finite 100 \<and> thCbCr = Finite 200
       \<and> (\<forall>x. (fgt (Finite x) propTol \<longrightarrow> 1 / 1000 < x)
              \<and> (1 / 1000 + 1 / 10 ^ 19 < x \<longrightarrow> fgt (Finite x) propTol))"
proof -
  have 1: "fgt pm propTol \<longrightarrow>
            \<not> imagesEqual env a b \<and> EucMetric_call \<notin> set (snd (imagesEqual_calls env a b))"
    using assms by (simp add: imagesEqual_def imagesEqual_calls_def)
  have 2: "fgt m1 thy \<or> fgt m2 thCbCr \<or> fgt m3 thCbCr \<longrightarrow> \<not> imagesEqual env a b"
    using assms by (auto simp: imagesEqual_def imagesEqual_calls_def)
  have 3: "\<not> fgt pm propTol \<and> \<not> fgt m1 thy \<and> \<not> fgt m2 thCbCr \<and> \<not> fgt m3 thCbCr \<longrightarrow>
            imagesEqual env a b"
    using assms by (simp add: imagesEqual_def imagesEqual_calls_def)
  from 1 2 3 propTol_near show ?thesis by (simp add: thy_def thCbCr_def)
qed

theorem imagesEqual_decision_witness:
  "fgt (PropMetric demo (Icon demo 1) (Icon demo 4)) propTol \<and> \<not> imagesEqual demo 1 4
   \<and> EucMetric_call \<notin> set (snd (imagesEqual_calls demo 1 4))
   \<and> EucMetric demo (Icon demo 1) (Icon demo 2) = (Finite 150, Finite 0, Finite 0)
   \<and> fgt (Finite 150) thy \<and> \<not> imagesEqual demo 1 2
   \<and> PropMetric demo (Icon demo 2) (Icon demo 2) = Finite 0
   \<and> EucMetric demo (Icon demo 2) (Icon demo 2) = (Finite 0, Finite 0, Finite 0)
   \<and> imagesEqual demo 2 2"
proof -
  have p14: "PropMetric demo (Icon demo 1) (Icon demo 4) = Finite (1 / 2)"
    and e14: "EucMetric demo (Icon demo 1) (Icon demo 4) = (Finite 150, Finite 0, Finite 0)"
    and p12: "PropMetric demo (Icon demo 1) (Icon demo 2) = Finite 0"
    and e12: "EucMetric demo (Icon demo 1) (Icon demo 2) = (Finite 150, Finite 0, Finite 0)"
    and p22: "PropMetric demo (Icon demo 2) (Icon demo 2) = Finite 0"
    and e22: "EucMetric demo (Icon demo 2) (Icon demo 2) = (Finite 0, Finite 0, Finite 0)"
    by (simp_all add: demo_def)
  have big: "fgt (Finite (1 / 2)) propTol" by (simp add: propTol_def)
  have luma: "fgt (Finite 150) thy" by (simp add: thy_def)
  have small: "\<not> fgt (Finite 0) propTol" "\<not> fgt (Finite 0) thy" "\<not> fgt (Finite 0) thCbCr"
    by (simp_all add: propTol_def thy_def thCbCr_def)
  from imagesEqual_decision [OF p14 e14] big
  have a: "\<not> imagesEqual demo 1 4 \<and> EucMetric_call \<notin> set (snd (imagesEqual_calls demo 1 4))"
    by blast
  from imagesEqual_decision [OF p12 e12] luma have b: "\<not> imagesEqual demo 1 2" by blast
  from imagesEqual_decision [OF p22 e22] small have c: "imagesEqual demo 2 2" by blast
  from a b c big luma p14 e12 p22 e22 show ?thesis by simp
qed

text \<open>
  C5. Go's \<^verbatim>\<open>gif.Decode\<close> returns the first frame of its decoder, an \<^verbatim>\<open>*image.Paletted\<close>:
  whatever it decodes is paletted. Then, when \<^verbatim>\<open>encodeImgPaletted\<close> returns without error,
  the result has exactly one paletted image per run, in the slot at the index of the run,
  with the count of the run unchanged; the image is the one the GIF of the run's frame
  decodes to; and every completion order of the goroutines gives this same result.
\<close>

theorem encodeImgPaletted_one_per_run:
  fixes env :: "('img, 'icon, 'pal) env"
  assumes std: "\<forall>b d. gif_Decode env b = Inr d \<longrightarrow> (\<exists>i. d = Paletted i)"
    and sched: "schedule (length ims) order"
    and ok: "encodeImgPaletted env ims order = Ok im_p"
  shows "length im_p = length ims
       \<and> (\<forall>k < length ims. \<exists>p m b.
             im_p ! k = Some p \<and> pdelay p = delay (ims ! k)
             \<and> img (ims ! k) = Some m \<and> gif_Encode env m = Inr b
             \<and> gif_Decode env b = Inr (Paletted (paletted p)))
       \<and> (\<forall>order'. schedule (length ims) order' \<longrightarrow> encodeImgPaletted env ims order' = Ok im_p)"
proof -
  from encodeImgPaletted_slots [OF sched ok]
  have len: "length im_p = length ims"
    and slots: "\<forall>k < length ims. \<exists>m b d.
             img (ims ! k) = Some m \<and> gif_Encode env m = Inr b \<and> gif_Decode env b = Inr d
             \<and> im_p ! k =
                 (case d of
                    Paletted i \<Rightarrow> Some \<lparr>paletted = i, pdelay = delay (ims ! k)\<rparr>
                  | NotPaletted \<Rightarrow> None)"
    and any: "\<forall>order'. schedule (length ims) order' \<longrightarrow> encodeImgPaletted env ims order' = Ok im_p"
    by blast+
  have "\<exists>p m b. im_p ! k = Some p \<and> pdelay p = delay (ims ! k)
             \<and> img (ims ! k) = Some m \<and> gif_Encode env m = Inr b
             \<and> gif_Decode env b = Inr (Paletted (paletted p))" if k: "k < length ims" for k
  proof -
    from slots k obtain m b d where m: "img (ims ! k) = Some m"
      and b: "gif_Encode env m = Inr b" and d: "gif_Decode env b = Inr d"
      and slot: "im_p ! k =
                 (case d of
                    Paletted i \<Rightarrow> Some \<lparr>paletted = i, pdelay = delay (ims ! k)\<rparr>
                  | NotPaletted \<Rightarrow> None)"
      by blast
    from std d obtain i where i: "d = Paletted i" by blast
    from slot i have "im_p ! k = Some \<lparr>paletted = i, pdelay = delay (ims ! k)\<rparr>" by simp
    with m b d i show ?thesis by simp
  qed
  with len any show ?thesis by blast
qed

theorem encodeImgPaletted_one_per_run_witness:
  "gif_Decode demo_gif [1] = Inr (Paletted 1) \<and> gif_Decode demo_gif [3] = Inr (Paletted 3)
   \<and> schedule 2 [1, 0]
   \<and> encodeImgPaletted demo_gif [\<lparr>img = Some 1, delay = 2\<rparr>, \<lparr>img = Some 3, delay = 1\<rparr>] [1, 0] =
       Ok [Some \<lparr>paletted = 1, pdelay = 2\<rparr>, Some \<lparr>paletted = 3, pdelay = 1\<rparr>]
   \<and> schedule 2 [0, 1]
   \<and> encodeImgPaletted demo_gif [\<lparr>img = Some 1, delay = 2\<rparr>, \<lparr>img = Some 3, delay = 1\<rparr>] [0, 1] =
       Ok [Some \<lparr>paletted = 1, pdelay = 2\<rparr>, Some \<lparr>paletted = 3, pdelay = 1\<rparr>]"
proof -
  let ?ims = "[\<lparr>img = Some (1 :: nat), delay = 2\<rparr>, \<lparr>img = Some 3, delay = 1\<rparr>]"
  let ?im_p = "[Some \<lparr>paletted = 1 :: nat, pdelay = 2\<rparr>, Some \<lparr>paletted = 3, pdelay = 1\<rparr>]"
  have std: "\<forall>b d. gif_Decode demo_gif b = Inr d \<longrightarrow> (\<exists>i. d = Paletted i)"
    by (auto simp: demo_gif_def)
  have dec: "gif_Decode demo_gif [1] = Inr (Paletted 1)" "gif_Decode demo_gif [3] = Inr (Paletted 3)"
    by (simp_all add: demo_gif_def)
  have s1: "schedule 2 [1, 0]" and s2: "schedule 2 [0, 1]" by (auto simp: schedule_def)
  then have s1': "schedule (length ?ims) [1, 0]" and s2': "schedule (length ?ims) [0, 1]"
    by (simp_all add: numeral_2_eq_2)
  have ok: "encodeImgPaletted demo_gif ?ims [1, 0] = Ok ?im_p" by (rule demo_gif_encodeImgPaletted)
  from encodeImgPaletted_one_per_run [OF std s1' ok] s2'
  have "encodeImgPaletted demo_gif ?ims [0, 1] = Ok ?im_p" by blast
  with dec s1 s2 ok show ?thesis by blast
qed

text \<open>
  C6. When \<open>p\<close> is the first listed path that fails to open or to decode,
  \<^verbatim>\<open>BuildGif\<close> returns an error that names \<open>p\<close>. The events are exactly the reads of
  the files before \<open>p\<close>, the failed read of \<open>p\<close> and the deferred closes: no file after
  \<open>p\<close> is touched, and nothing is created or written (\<^verbatim>\<open>writeGif\<close> is not reached).
\<close>

theorem BuildGif_source_error:
  fixes env :: "('img, 'icon, 'pal) env"
  assumes "\<forall>s \<in> set pre. os_Open env s = None \<and> (\<exists>im. image_Decode env s = Inr im)"
    and "os_Open env p \<noteq> None \<or> (\<exists>c. image_Decode env p = Inl c)"
  shows "\<exists>e. BuildGif env (pre @ p # post) out fps order =
           (Err e,
            concat (map (\<lambda>s. [Open s, Decode s]) pre) @
            (if os_Open env p \<noteq> None then [Open p] @ map Close (rev pre)
             else [Open p, Decode p] @ map Close (p # rev pre)))
          \<and> error_path e = Some p
          \<and> (\<forall>ev \<in> set (snd (BuildGif env (pre @ p # post) out fps order)).
                \<exists>s \<in> set (pre @ [p]). ev = Open s \<or> ev = Decode s \<or> ev = Close s)"
proof -
  from readImages_first_failure [OF assms, of post] obtain e where
    rd: "readImages env (pre @ p # post) =
           (Err e,
            concat (map (\<lambda>s. [Open s, Decode s]) pre) @
            (if os_Open env p \<noteq> None then [Open p] @ map Close (rev pre)
             else [Open p, Decode p] @ map Close (p # rev pre)))"
    and ep: "error_path e = Some p"
    by blast
  have bg: "BuildGif env (pre @ p # post) out fps order =
           (Err e,
            concat (map (\<lambda>s. [Open s, Decode s]) pre) @
            (if os_Open env p \<noteq> None then [Open p] @ map Close (rev pre)
             else [Open p, Decode p] @ map Close (p # rev pre)))"
    using rd by (simp add: BuildGif_def)
  have "\<forall>ev \<in> set (snd (BuildGif env (pre @ p # post) out fps order)).
                \<exists>s \<in> set (pre @ [p]). ev = Open s \<or> ev = Decode s \<or> ev = Close s"
    unfolding bg by auto
  with bg ep show ?thesis by blast
qed

theorem BuildGif_source_error_witness:
  "os_Open demo ''a1.png'' = None \<and> image_Decode demo ''a1.png'' = Inr 1
   \<and> os_Open demo ''x.png'' = None \<and> image_Decode demo ''x.png'' = Inl ''unknown format''
   \<and> BuildGif demo ([''a1.png''] @ ''x.png'' # [''b.png'']) ''out.gif'' 25 [1, 0] =
        (Err (Failed_to_decode ''x.png'' ''unknown format''),
         [Open ''a1.png'', Decode ''a1.png'', Open ''x.png'', Decode ''x.png'',
          Close ''x.png'', Close ''a1.png''])"
proof -
  have h1: "\<forall>s \<in> set [''a1.png'']. os_Open demo s = None \<and> (\<exists>im. image_Decode demo s = Inr im)"
    by (simp add: demo_def)
  have h2: "os_Open demo ''x.png'' \<noteq> None \<or> (\<exists>c. image_Decode demo ''x.png'' = Inl c)"
    by (simp add: demo_def)
  have g: "os_Open demo ''a1.png'' = None" "image_Decode demo ''a1.png'' = Inr 1"
    by (simp_all add: demo_def)
  have dec: "image_Decode demo ''x.png'' = Inl ''unknown format''" by (simp add: demo_def)
  have op: "os_Open demo ''x.png'' = None" by (simp add: demo_def)
  from BuildGif_source_error [OF h1 h2, of "[''b.png'']" "''out.gif''" 25 "[1, 0]"]
  obtain e where bg: "BuildGif demo ([''a1.png''] @ ''x.png'' # [''b.png'']) ''out.gif'' 25 [1, 0] =
           (Err e,
            concat (map (\<lambda>s. [Open s, Decode s]) [''a1.png'']) @
            (if os_Open demo ''x.png'' \<noteq> None then [Open ''x.png''] @ map Close (rev [''a1.png''])
             else [Open ''x.png'', Decode ''x.png''] @ map Close (''x.png'' # rev [''a1.png''])))"
    and ep: "error_path e = Some ''x.png''"
    by blast
  have "e = Failed_to_decode ''x.png'' ''unknown format''"
    using bg dec op by (simp add: BuildGif_def demo_simps)
  with bg op dec g show ?thesis by simp
qed

text \<open>
  C7. For a non-empty sequence of N frames that all open and decode, in which every
  comparison the loop makes (always against the first frame, the representative of the only
  run) says equal, \<^verbatim>\<open>readImages\<close> returns exactly one run: the first frame with count N.
\<close>

theorem readImages_all_equal_one_run:
  fixes env :: "('img, 'icon, 'pal) env"
  assumes "files \<noteq> []"
    and "int (length files) < 2 ^ 63"
    and "\<forall>s \<in> set files. os_Open env s = None"
    and "image_Decode env (hd files) = Inr a"
    and "\<forall>s \<in> set (tl files). \<exists>im. image_Decode env s = Inr im \<and> imagesEqual env a im"
  shows "fst (readImages env files) = Ok [\<lparr>img = Some a, delay = int (length files)\<rparr>]"
proof -
  from assms(1) obtain s rest where files: "files = s # rest" by (cases files) auto
  let ?st0 = "\<lparr>images = [], prevImg = Some a, rdelay = 1, deferred = [s],
               rlog = [Open s, Decode s]\<rparr> :: ('img, 'pal) rd_state"
  have first: "readImages_loop env files
           \<lparr>images = [], prevImg = None, rdelay = 1, deferred = [], rlog = []\<rparr> =
         readImages_loop env rest ?st0"
    using assms(3,4) files by (intro readImages_loop_first [of env s a rest, folded files]) auto
  have "\<exists>st'. readImages_loop env rest ?st0 = (None, st') \<and> images st' = images ?st0
           \<and> prevImg st' = Some a \<and> rdelay st' = rdelay ?st0 + int (length rest)"
    using assms(2,3,5) files by (intro readImages_loop_all_equal) auto
  then show ?thesis using first files by (auto simp: readImages_def)
qed

theorem readImages_all_equal_one_run_witness:
  "os_Open demo ''a1.png'' = None \<and> os_Open demo ''a2.png'' = None
   \<and> image_Decode demo ''a1.png'' = Inr 1 \<and> image_Decode demo ''a2.png'' = Inr 1
   \<and> imagesEqual demo 1 1
   \<and> fst (readImages demo [''a1.png'', ''a2.png'']) = Ok [\<lparr>img = Some 1, delay = 2\<rparr>]"
proof -
  have h1: "[''a1.png'', ''a2.png''] \<noteq> []" by simp
  have h2: "int (length [''a1.png'', ''a2.png'']) < 2 ^ 63" by simp
  have h3: "\<forall>s \<in> set [''a1.png'', ''a2.png'']. os_Open demo s = None"
    by (simp add: demo_def)
  have h4: "image_Decode demo (hd [''a1.png'', ''a2.png'']) = Inr 1" by (simp add: demo_def)
  have h5: "\<forall>s \<in> set (tl [''a1.png'', ''a2.png'']).
              \<exists>im. image_Decode demo s = Inr im \<and> imagesEqual demo 1 im"
    by (simp add: demo_simps)
  have g: "os_Open demo ''a1.png'' = None" "os_Open demo ''a2.png'' = None"
    "image_Decode demo ''a1.png'' = Inr 1" "image_Decode demo ''a2.png'' = Inr 1"
    "imagesEqual demo 1 1"
    by (simp_all add: demo_simps)
  from readImages_all_equal_one_run [OF h1 h2 h3 h4 h5] g show ?thesis by simp
qed

text \<open>
  C8. Every run emitted by \<^verbatim>\<open>readImages\<close> has a repetition count of at least 1, for
  every input sequence (the empty one too). A slice has fewer than \<open>2 ^ 63\<close> elements, so
  the counter does not wrap.
\<close>

theorem readImages_count_ge_1:
  fixes env :: "('img, 'icon, 'pal) env"
  assumes "fst (readImages env files) = Ok runs"
    and "int (length files) < 2 ^ 63"
    and "r \<in> set runs"
  shows "1 \<le> delay r"
proof (cases "files = []")
  case True
  with assms(1,3) show ?thesis by (auto simp: readImages_def)
next
  case False
  with assms readImages_nonempty_counts [of env files runs] show ?thesis by blast
qed

theorem readImages_count_ge_1_witness:
  "fst (readImages demo [''a1.png'', ''a2.png'', ''b.png'']) =
     Ok [\<lparr>img = Some 1, delay = 2\<rparr>, \<lparr>img = Some 2, delay = 1\<rparr>]
   \<and> int (length [''a1.png'', ''a2.png'', ''b.png'']) < 2 ^ 63
   \<and> \<lparr>img = Some (2::nat), delay = 1\<rparr> \<in> set [\<lparr>img = Some 1, delay = 2\<rparr>, \<lparr>img = Some 2, delay = 1\<rparr>]
   \<and> 1 \<le> delay \<lparr>img = Some (2::nat), delay = 1\<rparr>"
proof -
  have run: "fst (readImages demo [''a1.png'', ''a2.png'', ''b.png'']) =
     Ok [\<lparr>img = Some 1, delay = 2\<rparr>, \<lparr>img = Some 2, delay = 1\<rparr>]"
    by (simp add: demo_readImages)
  have len: "int (length [''a1.png'', ''a2.png'', ''b.png'']) < 2 ^ 63" by simp
  have mem: "\<lparr>img = Some (2::nat), delay = 1\<rparr> \<in> set [\<lparr>img = Some 1, delay = 2\<rparr>, \<lparr>img = Some 2, delay = 1\<rparr>]"
    by simp
  from readImages_count_ge_1 [OF run len mem] run len mem show ?thesis by blast
qed

text \<open>
  C9. If the GIF of run \<open>k\<close> encodes and decodes to something that is not an
  \<^verbatim>\<open>*image.Paletted\<close>, its goroutine stores nothing and returns \<^verbatim>\<open>nil\<close>; when no other
  goroutine fails, \<^verbatim>\<open>encodeImgPaletted\<close> returns without error a slice whose slot \<open>k\<close> is
  \<^verbatim>\<open>nil\<close>. \<^verbatim>\<open>writeGif\<close>, which \<^verbatim>\<open>BuildGif\<close> calls with that slice, dereferences the entry
  and panics.
\<close>

theorem encodeImgPaletted_not_paletted_nil:
  fixes env :: "('img, 'icon, 'pal) env"
  assumes sched: "schedule (length ims) order"
    and k: "k < length ims"
    and im: "img (ims ! k) = Some m"
    and enc: "gif_Encode env m = Inr b"
    and dec: "gif_Decode env b = Inr NotPaletted"
    and others: "\<forall>j < length ims. j \<noteq> k \<longrightarrow> (\<exists>s. encode_task env (ims ! j) = Ok s)"
  shows "encode_task env (ims ! k) = Ok None
       \<and> (\<exists>im_p. encodeImgPaletted env ims order = Ok im_p \<and> length im_p = length ims
                 \<and> im_p ! k = None \<and> writeGif env im_p d path = (Panic, []))"
proof -
  have tk: "encode_task env (ims ! k) = Ok None"
    using im enc dec by (rule encode_task_NotPaletted)
  define im_p where
    "im_p = map (\<lambda>j. case encode_task env (ims ! j) of Ok s \<Rightarrow> s | _ \<Rightarrow> None) [0..<length ims]"
  have len: "length im_p = length ims" by (simp add: im_p_def)
  have "encode_task env (ims ! j) = Ok (im_p ! j)" if j: "j < length ims" for j
  proof (cases "j = k")
    case True
    with tk j show ?thesis by (simp add: im_p_def)
  next
    case False
    with others j obtain s where "encode_task env (ims ! j) = Ok s" by blast
    with j show ?thesis by (simp add: im_p_def)
  qed
  with len sched have ok: "encodeImgPaletted env ims order = Ok im_p"
    by (simp add: encodeImgPaletted_Ok_iff)
  have nil: "im_p ! k = None" using tk k by (simp add: im_p_def)
  with k len have "None \<in> set im_p" by (metis nth_mem)
  then have "writeGif env im_p d path = (Panic, [])"
    by (simp add: writeGif_def writeGif_loop_nil)
  with tk ok len nil show ?thesis by blast
qed

theorem encodeImgPaletted_not_paletted_nil_witness:
  "schedule 2 [1, 0]
   \<and> gif_Encode demo 3 = Inr [3] \<and> gif_Decode demo [3] = Inr NotPaletted
   \<and> encode_task demo \<lparr>img = Some 1, delay = 2\<rparr> = Ok (Some \<lparr>paletted = 1, pdelay = 2\<rparr>)
   \<and> encode_task demo \<lparr>img = Some 3, delay = 1\<rparr> = Ok None
   \<and> encodeImgPaletted demo [\<lparr>img = Some 1, delay = 2\<rparr>, \<lparr>img = Some 3, delay = 1\<rparr>] [1, 0] =
       Ok [Some \<lparr>paletted = 1, pdelay = 2\<rparr>, None]
   \<and> writeGif demo [Some \<lparr>paletted = 1, pdelay = 2\<rparr>, None] 4 ''out.gif'' = (Panic, [])"
proof -
  let ?ims = "[\<lparr>img = Some (1 :: nat), delay = 2\<rparr>, \<lparr>img = Some 3, delay = 1\<rparr>]"
  have s1: "schedule 2 [1, 0]" by (auto simp: schedule_def)
  then have sched: "schedule (length ?ims) [1, 0]" by (simp add: numeral_2_eq_2)
  have k: "(1 :: nat) < length ?ims" by simp
  have im: "img (?ims ! 1) = Some 3" by simp
  have enc: "gif_Encode demo 3 = Inr [3]" by (simp add: demo_def)
  have dec: "gif_Decode demo [3] = Inr NotPaletted" by (simp add: demo_def)
  have t0: "encode_task demo \<lparr>img = Some 1, delay = 2\<rparr> = Ok (Some \<lparr>paletted = 1, pdelay = 2\<rparr>)"
    by (simp add: encode_task_def demo_def)
  have others: "\<forall>j < length ?ims. j \<noteq> 1 \<longrightarrow> (\<exists>s. encode_task demo (?ims ! j) = Ok s)"
    using t0 by (auto simp: less_Suc_eq)
  from encodeImgPaletted_not_paletted_nil [OF sched k im enc dec others, of 4 "''out.gif''"]
  obtain im_p where t1: "encode_task demo (?ims ! 1) = Ok None"
    and ok: "encodeImgPaletted demo ?ims [1, 0] = Ok im_p"
    and pan: "writeGif demo im_p 4 ''out.gif'' = (Panic, [])"
    by blast
  from ok have eq: "im_p = [Some \<lparr>paletted = 1, pdelay = 2\<rparr>, None]"
    unfolding demo_encodeImgPaletted by simp
  from t1 have t1': "encode_task demo \<lparr>img = Some 3, delay = 1\<rparr> = Ok None" by simp
  from s1 enc dec t0 t1' ok pan show ?thesis unfolding eq by blast
qed

text \<open>
  C10. For fps above 100 the delay unit \<^verbatim>\<open>100/fps\<close> is 0, and every frame of the GIF
  that \<^verbatim>\<open>BuildGif\<close> hands to \<^verbatim>\<open>gif.EncodeAll\<close> has delay 0, whatever the counts.
\<close>

theorem BuildGif_fps_above_100:
  fixes env :: "('img, 'icon, 'pal) env"
  assumes "100 < f"
    and "EncodeAll out g \<in> set (snd (BuildGif env files out f order))"
  shows "quo 100 (if f = 0 then 30 else f) = 0 \<and> 100 div f = 0
       \<and> length (GIF_Delay g) = length (GIF_Image g) \<and> GIF_Delay g = replicate (length (GIF_Image g)) 0"
proof -
  from assms(1) have unit: "quo 100 (if f = 0 then 30 else f) = 0" by (simp add: quo_gt_100)
  from assms(1) have fl: "100 div f = 0" by (simp add: div_pos_pos_trivial)
  from assms(2) obtain runs im_p where
    "writeGif_loop im_p (quo 100 (if f = 0 then 30 else f)) \<lparr>GIF_Image = [], GIF_Delay = []\<rparr> = Some g"
    by (rule BuildGif_EncodeAll)
  from writeGif_loop_frames [OF this] unit
  have "GIF_Delay g = map (\<lambda>i. 0) im_p" and "length (GIF_Image g) = length im_p"
    by (simp_all add: int64_0)
  then have "GIF_Delay g = replicate (length (GIF_Image g)) 0"
    by (simp add: map_replicate_const)
  with unit fl show ?thesis by simp
qed

theorem BuildGif_fps_above_100_witness:
  "EncodeAll ''out.gif'' \<lparr>GIF_Image = [1, 2], GIF_Delay = [0, 0]\<rparr>
     \<in> set (snd (BuildGif demo [''a1.png'', ''a2.png'', ''b.png''] ''out.gif'' 200 [0, 1]))
   \<and> fst (readImages demo [''a1.png'', ''a2.png'', ''b.png'']) =
       Ok [\<lparr>img = Some 1, delay = 2\<rparr>, \<lparr>img = Some 2, delay = 1\<rparr>]
   \<and> quo 100 200 = 0
   \<and> GIF_Delay \<lparr>GIF_Image = [1 :: nat, 2], GIF_Delay = [0, 0]\<rparr> = replicate 2 0"
proof -
  let ?g = "\<lparr>GIF_Image = [1 :: nat, 2], GIF_Delay = [0, 0]\<rparr>"
  have f: "(100 :: int) < 200" by simp
  have ev: "EncodeAll ''out.gif'' ?g
     \<in> set (snd (BuildGif demo [''a1.png'', ''a2.png'', ''b.png''] ''out.gif'' 200 [0, 1]))"
    unfolding demo_BuildGif_200 by simp
  have rd: "fst (readImages demo [''a1.png'', ''a2.png'', ''b.png'']) =
       Ok [\<lparr>img = Some 1, delay = 2\<rparr>, \<lparr>img = Some 2, delay = 1\<rparr>]"
    by (simp add: demo_readImages)
  from BuildGif_fps_above_100 [OF f ev]
  have "quo 100 200 = 0" and "GIF_Delay ?g = replicate 2 0" by (simp_all add: numeral_2_eq_2)
  with ev rd show ?thesis by blast
qed

end
